theory Spec2Isabelle
  imports Complex_Main "HOL-Library.Word"
begin

section \<open>Task Crusher: the client screen\<close>

text \<open>
  The development follows the \<^verbatim>\<open>TaskCrusher\<close> screen component: its types, its three
  handlers \<^verbatim>\<open>analyzeTask\<close>, \<^verbatim>\<open>toggleSubtaskSelection\<close> and \<^verbatim>\<open>createTaskGroup\<close>, and
  the backend operations these handlers drive.
\<close>

subsection \<open>Text\<close>

text \<open>A JavaScript string is a sequence of UTF-16 code units.\<close>

type_synonym jsstring = "16 word list"

definition lit :: "string \<Rightarrow> jsstring" where
  "lit s = map (\<lambda>c. of_nat (of_char c)) s"

text \<open>
  The code units \<^verbatim>\<open>String.prototype.trim\<close> strips: WhiteSpace (TAB, VT, FF, SP, NBSP,
  ZWNBSP and the space separators) and LineTerminator (LF, CR, LS, PS).
\<close>

definition isWhiteSpace :: "16 word \<Rightarrow> bool" where
  "isWhiteSpace c \<longleftrightarrow>
     c \<in> set [0x9, 0xA, 0xB, 0xC, 0xD, 0x20, 0xA0, 0x1680,
              0x2028, 0x2029, 0x202F, 0x205F, 0x3000, 0xFEFF]
     \<or> (0x2000 \<le> c \<and> c \<le> 0x200A)"

definition trim :: "jsstring \<Rightarrow> jsstring" where
  "trim s = rev (dropWhile isWhiteSpace (rev (dropWhile isWhiteSpace s)))"

text \<open>
  The Number value of a natural number: a double, so the number is rounded to 53
  significant bits, a tie going to the even neighbour, and from \<open>2 ^ 1024\<close> on the
  result is Infinity (\<open>None\<close>).
\<close>

function bitLength :: "int \<Rightarrow> nat" where
  "bitLength m = (if m \<le> 0 then 0 else Suc (bitLength (m div 2)))"
  by pat_completeness auto
termination
  by (relation "measure nat") auto

declare bitLength.simps [simp del]

definition toNumber :: "int \<Rightarrow> int option" where
  "toNumber m =
     (let b = bitLength m in
      if b \<le> 53 then Some m
      else
        let sh = b - 53;
            q = m div 2 ^ sh;
            r = m mod 2 ^ sh;
            h = 2 ^ (sh - 1);
            q' = (if h < r \<or> (r = h \<and> odd q) then q + 1 else q);
            v = q' * 2 ^ sh
        in if 2 ^ 1024 \<le> v then None else Some v)"

text \<open>
  \<^verbatim>\<open>parseInt(s)\<close> with no radix, as \<^verbatim>\<open>JSON.stringify\<close> writes its result: leading white
  space is skipped, a sign is read, a \<^verbatim>\<open>0x\<close> prefix selects radix 16, and the longest
  run of digits is read and turned into a Number. The result is \<open>None\<close>, written
  \<^verbatim>\<open>null\<close>, when there is no digit (NaN) or the Number is not finite. (For more than
  20 decimal digits ECMAScript lets an engine round less exactly than to the nearest
  double.)
\<close>

definition digitValue :: "int \<Rightarrow> 16 word \<Rightarrow> int option" where
  "digitValue R c =
     (let u = uint c;
          v = (if 48 \<le> u \<and> u \<le> 57 then u - 48
               else if 97 \<le> u \<and> u \<le> 122 then u - 87
               else if 65 \<le> u \<and> u \<le> 90 then u - 55
               else 36)
      in if v < R then Some v else None)"

definition parseInt :: "jsstring \<Rightarrow> int option" where
  "parseInt s =
     (let S = dropWhile isWhiteSpace s;
          sign = (case S of c # _ \<Rightarrow> if c = 0x2D then - 1 else 1 | [] \<Rightarrow> (1::int));
          S1 = (case S of c # cs \<Rightarrow> if c = 0x2D \<or> c = 0x2B then cs else S | [] \<Rightarrow> S);
          hex = (case S1 of a # b # _ \<Rightarrow> a = 0x30 \<and> (b = 0x78 \<or> b = 0x58) | _ \<Rightarrow> False);
          R = (if hex then 16 else 10);
          S2 = (if hex then drop 2 S1 else S1);
          Z = takeWhile (\<lambda>c. digitValue R c \<noteq> None) S2;
          mathInt = foldl (\<lambda>a c. case digitValue R c of Some v \<Rightarrow> a * R + v | None \<Rightarrow> a) 0 Z
      in if Z = [] then None
         else map_option (\<lambda>v. sign * v) (toNumber mathInt))"

subsection \<open>Types of the screen\<close>

text \<open>
  \<^verbatim>\<open>interface SubTaskSuggestion\<close>, \<^verbatim>\<open>interface TaskCrusherResponse\<close> and
  \<^verbatim>\<open>interface TaskGroup\<close>. Identifiers are opaque (strings on the wire); only their
  equality matters, so they are numbers here. Time stamps are numbers as well.
\<close>

type_synonym ident = nat
type_synonym timestamp = nat

record SubTaskSuggestion =
  title :: jsstring
  description :: jsstring
  estimated_duration :: int
  priority :: int
  order :: int
  dependencies :: "jsstring list"
  selected :: bool

record TaskCrusherResponse =
  main_task :: jsstring
  suggested_subtasks :: "SubTaskSuggestion list"
  total_estimated_duration :: int
  completion_strategy :: jsstring
  ai_confidence :: real

record TaskGroup =
  id' :: ident
  main_task_title :: jsstring
  main_task_description :: jsstring
  category :: jsstring
  total_subtasks :: int
  completed_subtasks :: int
  progress_percentage :: real
  created_at :: timestamp
  is_active :: bool

datatype difficulty = Easy | Medium | Hard | Expert

datatype tab = Crusher | Groups

text \<open>The \<^verbatim>\<open>useState\<close> cells of the component.\<close>

record state =
  mainTask :: jsstring
  descriptionText :: jsstring
  difficultyLevel :: difficulty
  estimatedDuration :: jsstring
  isAnalyzing :: bool
  crusherResponse :: "TaskCrusherResponse option"
  taskGroups :: "TaskGroup list"
  showAnalysisModal :: bool
  activeTab :: tab

subsection \<open>Requests, replies and effects\<close>

text \<open>The JSON body of \<^verbatim>\<open>POST /api/task-crusher/analyze\<close>.\<close>

record AnalyzeBody =
  main_task_req :: jsstring
  description_req :: jsstring
  category_req :: jsstring
  estimated_duration_req :: "int option"
  difficulty_level_req :: difficulty

text \<open>The JSON answer of \<^verbatim>\<open>POST /api/task-crusher/create-group\<close>.\<close>

record CreateGroupResult =
  group_id :: ident
  subtasks_created :: int

text \<open>
  What \<^verbatim>\<open>await fetch(...)\<close> gives: the promise is rejected (no connection), or there is
  a response with its \<^verbatim>\<open>ok\<close> flag and a body; the body is \<open>None\<close> when
  \<^verbatim>\<open>response.json()\<close> is rejected or the data has not the expected shape, so that using
  it throws.
\<close>

datatype 'a reply = Rejected | Response bool "'a option"

text \<open>The alerts of the screen, by their texts in the source.\<close>

datatype alert =
    MissingInformation \<comment> \<open>"Missing Information", "Please enter a task to analyze"\<close>
  | AnalyzeFailed \<comment> \<open>"Error", "Failed to analyze task. Please try again."\<close>
  | AnalyzeNoConnection \<comment> \<open>"Error", "Failed to analyze task. Please check your connection."\<close>
  | NoTasksSelected \<comment> \<open>"No Tasks Selected", "Please select at least one subtask to create."\<close>
  | TasksCreated int \<comment> \<open>"Tasks Created!", "Successfully created n subtasks ..."\<close>
  | CreateGroupFailed \<comment> \<open>"Error", "Failed to create task group. Please try again."\<close>
  | CreateNoConnection \<comment> \<open>"Error", "Failed to create tasks. Please check your connection."\<close>

datatype request = PostAnalyze AnalyzeBody | PostCreateGroup TaskCrusherResponse

datatype effect =
    Alert alert
  | Fetch request
  | ConsoleError
  | Haptic
  | Uncaught \<comment> \<open>a TypeError that leaves the handler\<close>

text \<open>
  A handler runs on the component state and on the world \<open>'w\<close> behind the network, which
  only the \<open>net\<close> function it is given can change. It returns the new component state,
  the effects it performed, in order, and the new world.
\<close>

type_synonym 'w outcome = "(state \<times> effect list) \<times> 'w"

subsection \<open>The handlers\<close>

definition analyzeBody :: "state \<Rightarrow> AnalyzeBody" where
  "analyzeBody st =
     \<lparr> main_task_req = mainTask st,
       description_req = descriptionText st,
       category_req = lit ''personal'',
       estimated_duration_req =
         (if estimatedDuration st \<noteq> [] then parseInt (estimatedDuration st) else None),
       difficulty_level_req = difficultyLevel st \<rparr>"

definition analyzeTask ::
  "(AnalyzeBody \<Rightarrow> 'w \<Rightarrow> TaskCrusherResponse reply \<times> 'w) \<Rightarrow> state \<Rightarrow> 'w \<Rightarrow> 'w outcome" where
  "analyzeTask net st w =
     (if trim (mainTask st) = [] then ((st, [Alert MissingInformation]), w)
      else
        let body = analyzeBody st;
            (rep, w') = net body w
        in case rep of
             Rejected \<Rightarrow>
               ((st\<lparr>isAnalyzing := False\<rparr>,
                 [Fetch (PostAnalyze body), ConsoleError, Alert AnalyzeNoConnection]), w')
           | Response ok json \<Rightarrow>
               if ok then
                 (case json of
                    None \<Rightarrow>
                      ((st\<lparr>isAnalyzing := False\<rparr>,
                        [Fetch (PostAnalyze body), ConsoleError, Alert AnalyzeNoConnection]), w')
                  | Some data \<Rightarrow>
                      let enhancedSubtasks =
                            map (\<lambda>subtask. subtask\<lparr>selected := True\<rparr>) (suggested_subtasks data)
                      in ((st\<lparr>crusherResponse := Some (data\<lparr>suggested_subtasks := enhancedSubtasks\<rparr>),
                              showAnalysisModal := True,
                              isAnalyzing := False\<rparr>,
                           [Fetch (PostAnalyze body), Haptic]), w'))
               else
                 ((st\<lparr>isAnalyzing := False\<rparr>,
                   [Fetch (PostAnalyze body), Alert AnalyzeFailed]), w'))"

text \<open>
  \<^verbatim>\<open>updatedSubtasks[index]\<close> is \<^verbatim>\<open>undefined\<close> outside the array, and reading its
  \<^verbatim>\<open>selected\<close> throws before anything is written. The suggestion objects of the array
  are pairwise distinct (each was made by its own spread in \<^verbatim>\<open>analyzeTask\<close>), so the
  assignment changes the one entry. The array is a copy, but the entry is the object the
  previous array holds too; the component reads the previous array no more once the new
  state is set, so the state is modelled by value.
\<close>

definition toggleSubtaskSelection :: "int \<Rightarrow> state \<Rightarrow> 'w \<Rightarrow> 'w outcome" where
  "toggleSubtaskSelection index st w =
     (case crusherResponse st of
        None \<Rightarrow> ((st, []), w)
      | Some r \<Rightarrow>
          let updatedSubtasks = suggested_subtasks r in
          if 0 \<le> index \<and> index < int (length updatedSubtasks) then
            let i = nat index;
                updatedSubtasks' =
                  updatedSubtasks[i := (updatedSubtasks ! i)\<lparr>selected := \<not> selected (updatedSubtasks ! i)\<rparr>]
            in ((st\<lparr>crusherResponse := Some (r\<lparr>suggested_subtasks := updatedSubtasks'\<rparr>)\<rparr>, []), w)
          else ((st, [Uncaught]), w))"

definition createTaskGroup ::
  "(TaskCrusherResponse \<Rightarrow> 'w \<Rightarrow> CreateGroupResult reply \<times> 'w) \<Rightarrow> state \<Rightarrow> 'w \<Rightarrow> 'w outcome" where
  "createTaskGroup net st w =
     (case crusherResponse st of
        None \<Rightarrow> ((st, []), w)
      | Some r \<Rightarrow>
          let selectedSubtasks = filter selected (suggested_subtasks r) in
          if length selectedSubtasks = 0 then ((st, [Alert NoTasksSelected]), w)
          else
            let body = r\<lparr>suggested_subtasks := selectedSubtasks\<rparr>;
                (rep, w') = net body w
            in (case rep of
                 Rejected \<Rightarrow>
                   ((st, [Fetch (PostCreateGroup body), ConsoleError, Alert CreateNoConnection]), w')
               | Response ok json \<Rightarrow>
                   if ok then
                     (case json of
                        None \<Rightarrow>
                          ((st, [Fetch (PostCreateGroup body), ConsoleError,
                                 Alert CreateNoConnection]), w')
                      | Some data \<Rightarrow>
                          ((st, [Fetch (PostCreateGroup body),
                                 Alert (TasksCreated (subtasks_created data)), Haptic]), w'))
                   else ((st, [Fetch (PostCreateGroup body), Alert CreateGroupFailed]), w')))"

text \<open>A run of toggles, one index after the other.\<close>

definition toggles :: "int list \<Rightarrow> state \<Rightarrow> state" where
  "toggles is st = fold (\<lambda>i s. fst (fst (toggleSubtaskSelection i s ()))) is st"

text \<open>The initial values of the \<^verbatim>\<open>useState\<close> cells.\<close>

definition initialState :: state where
  "initialState =
     \<lparr> mainTask = [], descriptionText = [], difficultyLevel = Medium, estimatedDuration = [],
       isAnalyzing = False, crusherResponse = None, taskGroups = [],
       showAnalysisModal = False, activeTab = Crusher \<rparr>"

text \<open>The requests among the effects of a handler.\<close>

definition requests :: "effect list \<Rightarrow> request list" where
  "requests es = concat (map (\<lambda>e. case e of Fetch q \<Rightarrow> [q] | _ \<Rightarrow> []) es)"

section \<open>The backend behind the screen\<close>

text \<open>
  The screen talks to a backend whose code is not among the sources of the screen. Its
  two operations on task groups are modelled from the specification: materialization
  (the create-group route) and the progress aggregator.
\<close>

subsection \<open>Persisted records\<close>

text \<open>
  Modelled from the spec: the error taxonomy of the backend operations, the persisted
  \<open>Subtask\<close> record (the \<open>TaskGroup\<close> record is the screen's interface) and the store
  holding both, none of which is among the sources. New identifiers are taken from
  \<open>nextId\<close>.
\<close>

datatype error = EmptySelectionError | PersistenceError | NotFoundError

record Subtask =
  subtask_id :: ident
  groupId :: ident
  subtask_title :: jsstring
  subtask_description :: jsstring
  subtask_estimated_duration :: int
  subtask_priority :: int
  subtask_order :: int
  subtask_dependencies :: "ident list"
  completed :: bool
  completedAt :: "timestamp option"

record store =
  groups :: "TaskGroup list"
  subtasks :: "Subtask list"
  nextId :: ident

definition emptyStore :: store where
  "emptyStore = \<lparr> groups = [], subtasks = [], nextId = 0 \<rparr>"

text \<open>Modelled from the spec: the subtasks of a group, as the store lists them.\<close>

definition subtasksOf :: "ident \<Rightarrow> store \<Rightarrow> Subtask list" where
  "subtasksOf gid db = filter (\<lambda>s. groupId s = gid) (subtasks db)"

text \<open>
  Modelled from the spec: the derived percentage \<open>100 * completed / total\<close>; the
  quotient is taken exactly.
\<close>

definition progress :: "int \<Rightarrow> int \<Rightarrow> real" where
  "progress c t = 100 * real_of_int c / real_of_int t"

subsection \<open>The persistence store\<close>

text \<open>
  Modelled from the spec: the persistence store, absent from the sources, "durable
  storage supporting atomic multi-record insert". The records of a batch are written one
  after the other to a copy of the store; the write whose position is \<open>fault\<close> fails;
  the copy replaces the store only when every write went through.
\<close>

datatype entry = GroupEntry TaskGroup | SubtaskEntry Subtask

fun insertEntry :: "entry \<Rightarrow> store \<Rightarrow> store" where
  "insertEntry (GroupEntry g) db = db\<lparr>groups := groups db @ [g]\<rparr>"
| "insertEntry (SubtaskEntry s) db = db\<lparr>subtasks := subtasks db @ [s]\<rparr>"

fun writeAll :: "nat option \<Rightarrow> nat \<Rightarrow> entry list \<Rightarrow> store \<Rightarrow> store option" where
  "writeAll fault k [] db = Some db"
| "writeAll fault k (e # es) db =
     (if fault = Some k then None else writeAll fault (Suc k) es (insertEntry e db))"

definition atomicInsert :: "nat option \<Rightarrow> entry list \<Rightarrow> store \<Rightarrow> error + store" where
  "atomicInsert fault es db =
     (case writeAll fault 0 es db of None \<Rightarrow> Inl PersistenceError | Some db' \<Rightarrow> Inr db')"

subsection \<open>Materialization\<close>

text \<open>
  Modelled from the spec: what a run of the backend brings with it, namely the position
  of the write that fails, if any, the clock, and the two fields of a group that the
  request does not carry.
\<close>

record env =
  fault :: "nat option"
  now :: timestamp
  groupDescription :: jsstring
  groupCategory :: jsstring

text \<open>
  Modelled from the spec: dependency resolution. A dependency is a title; it resolves to
  the new identifiers of the other suggestions of the batch with that title, and is
  dropped when there is none.
\<close>

definition resolveDependencies :: "(ident \<times> jsstring) list \<Rightarrow> ident \<Rightarrow> jsstring list \<Rightarrow> ident list" where
  "resolveDependencies names self deps =
     remdups (concat (map (\<lambda>d. map fst (filter (\<lambda>p. snd p = d \<and> fst p \<noteq> self) names)) deps))"

definition newSubtask :: "ident \<Rightarrow> (ident \<times> jsstring) list \<Rightarrow> ident \<Rightarrow> SubTaskSuggestion \<Rightarrow> Subtask" where
  "newSubtask gid names sid s =
     \<lparr> subtask_id = sid, groupId = gid,
       subtask_title = title s, subtask_description = description s,
       subtask_estimated_duration = estimated_duration s,
       subtask_priority = priority s, subtask_order = order s,
       subtask_dependencies = resolveDependencies names sid (dependencies s),
       completed = False, completedAt = None \<rparr>"

text \<open>
  Modelled from the spec: the records of a batch, that is the group \<open>gid\<close> for \<open>n\<close>
  suggestions and the subtasks for the chosen suggestions, with the identifiers that
  follow \<open>gid\<close>.
\<close>

definition newGroup :: "env \<Rightarrow> TaskCrusherResponse \<Rightarrow> ident \<Rightarrow> nat \<Rightarrow> TaskGroup" where
  "newGroup e r gid n =
     \<lparr> id' = gid, main_task_title = main_task r,
       main_task_description = groupDescription e,
       category = groupCategory e,
       total_subtasks = int n, completed_subtasks = 0,
       progress_percentage = progress 0 (int n),
       created_at = now e, is_active = True \<rparr>"

definition newSubtasks :: "ident \<Rightarrow> SubTaskSuggestion list \<Rightarrow> Subtask list" where
  "newSubtasks gid chosen =
     (let sids = map (\<lambda>k. gid + 1 + k) [0..<length chosen];
          names = zip sids (map title chosen)
      in map2 (newSubtask gid names) sids chosen)"

text \<open>
  Modelled from the spec: the Task Group Materializer behind
  \<^verbatim>\<open>POST /api/task-crusher/create-group\<close>, absent from the sources. The suggestions to
  materialize are those with \<open>selected = true\<close>; with none it fails with
  \<open>EmptySelectionError\<close>; otherwise it creates one group, with \<open>totalSubtasks\<close> the
  number of selected suggestions and \<open>completedSubtasks = 0\<close>, and one subtask for each,
  in one atomic insert, and returns the group's identifier and the number of subtasks.
\<close>

definition materializeGroup ::
  "env \<Rightarrow> TaskCrusherResponse \<Rightarrow> store \<Rightarrow> (error + CreateGroupResult) \<times> store" where
  "materializeGroup e r db =
     (let chosen = filter selected (suggested_subtasks r);
          n = length chosen
      in if chosen = [] then (Inl EmptySelectionError, db)
         else
           let gid = nextId db;
               g = newGroup e r gid n;
               subs = newSubtasks gid chosen
           in case atomicInsert (fault e) (GroupEntry g # map SubtaskEntry subs) db of
                Inl err \<Rightarrow> (Inl err, db)
              | Inr db' \<Rightarrow>
                  (Inr \<lparr> group_id = gid, subtasks_created = int n \<rparr>,
                   db'\<lparr>nextId := gid + 1 + n\<rparr>))"

text \<open>
  The failing write is one of the \<open>n + 1\<close> writes of the batch for \<open>n\<close> suggestions
  (positions \<open>0\<close> to \<open>n\<close>).
\<close>

definition faultWithin :: "nat option \<Rightarrow> nat \<Rightarrow> bool" where
  "faultWithin f n = (case f of None \<Rightarrow> False | Some j \<Rightarrow> j \<le> n)"

text \<open>
  Modelled from the spec: the route that serves the screen's request; an error is a
  response that is not \<^verbatim>\<open>ok\<close>.
\<close>

definition createGroupRoute ::
  "env \<Rightarrow> TaskCrusherResponse \<Rightarrow> store \<Rightarrow> CreateGroupResult reply \<times> store" where
  "createGroupRoute e body db =
     (case materializeGroup e body db of
        (Inl err, db') \<Rightarrow> (Response False None, db')
      | (Inr res, db') \<Rightarrow> (Response True (Some res), db'))"

subsection \<open>The progress aggregator\<close>

text \<open>
  Modelled from the spec: \<open>completeSubtask\<close>, absent from the sources, with the policy
  the spec recommends for a subtask that is complete already (a no-op that answers with
  the group's progress). A first completion marks the subtask, adds one to the group's
  \<open>completedSubtasks\<close> and recomputes the percentage; the group stays active while
  subtasks are left.
\<close>

definition completeSubtask :: "timestamp \<Rightarrow> ident \<Rightarrow> store \<Rightarrow> (error + TaskGroup) \<times> store" where
  "completeSubtask t sid db =
     (case find (\<lambda>s. subtask_id s = sid) (subtasks db) of
        None \<Rightarrow> (Inl NotFoundError, db)
      | Some s \<Rightarrow>
          (case find (\<lambda>g. id' g = groupId s) (groups db) of
             None \<Rightarrow> (Inl NotFoundError, db)
           | Some g \<Rightarrow>
               if completed s then (Inr g, db)
               else
                 let c = completed_subtasks g + 1;
                     g' = g\<lparr>completed_subtasks := c,
                            progress_percentage := progress c (total_subtasks g),
                            is_active := (c < total_subtasks g)\<rparr>;
                     s' = s\<lparr>completed := True, completedAt := Some t\<rparr>
                 in (Inr g',
                     db\<lparr>groups := map (\<lambda>x. if id' x = id' g then g' else x) (groups db),
                        subtasks := map (\<lambda>x. if subtask_id x = sid then s' else x) (subtasks db)\<rparr>)))"

text \<open>A run of completion calls, each with its time.\<close>

definition completeAll :: "(timestamp \<times> ident) list \<Rightarrow> store \<Rightarrow> store" where
  "completeAll calls db = fold (\<lambda>c d. snd (completeSubtask (fst c) (snd c) d)) calls db"

text \<open>The stores that materializations and completions build from the empty one.\<close>

inductive reachable :: "store \<Rightarrow> bool" where
  start: "reachable emptyStore"
| materialize: "reachable db \<Longrightarrow> reachable (snd (materializeGroup e r db))"
| complete: "reachable db \<Longrightarrow> reachable (snd (completeSubtask t sid db))"

text \<open>
  What holds of every such store: identifiers are used once and lie below the next one,
  and each group's counters count its subtasks.
\<close>

definition storeOk :: "store \<Rightarrow> bool" where
  "storeOk db \<longleftrightarrow>
     distinct (map id' (groups db)) \<and>
     distinct (map subtask_id (subtasks db)) \<and>
     list_all (\<lambda>g. id' g < nextId db) (groups db) \<and>
     list_all (\<lambda>s. groupId s < nextId db) (subtasks db) \<and>
     list_all (\<lambda>s. subtask_id s < nextId db) (subtasks db) \<and>
     list_all (\<lambda>g. 0 < total_subtasks g
                 \<and> total_subtasks g = int (length (subtasksOf (id' g) db))
                 \<and> completed_subtasks g = int (length (filter completed (subtasksOf (id' g) db)))
                 \<and> progress_percentage g = progress (completed_subtasks g) (total_subtasks g))
       (groups db)"

section \<open>Auxiliary functions\<close>

text \<open>The groups and the subtasks among the records of a batch.\<close>

definition groupsIn :: "entry list \<Rightarrow> TaskGroup list" where
  "groupsIn es = concat (map (\<lambda>e. case e of GroupEntry g \<Rightarrow> [g] | SubtaskEntry s \<Rightarrow> []) es)"

definition subtasksIn :: "entry list \<Rightarrow> Subtask list" where
  "subtasksIn es = concat (map (\<lambda>e. case e of GroupEntry g \<Rightarrow> [] | SubtaskEntry s \<Rightarrow> [s]) es)"

text \<open>The toggle on a suggestion and on a list of suggestions, for the proofs.\<close>

definition flipSelected :: "SubTaskSuggestion \<Rightarrow> SubTaskSuggestion" where
  "flipSelected s = s\<lparr>selected := \<not> selected s\<rparr>"

definition flipAt :: "nat \<Rightarrow> SubTaskSuggestion list \<Rightarrow> SubTaskSuggestion list" where
  "flipAt i xs = xs[i := flipSelected (xs ! i)]"

section \<open>Example values\<close>

text \<open>
  The scenario of the specification: a result of five suggestions with \<open>order\<close> 0 to 4,
  all selected on arrival, under review on the screen.
\<close>

definition suggestionAt :: "int \<Rightarrow> SubTaskSuggestion" where
  "suggestionAt k =
     \<lparr> title = [0x53, 0x30 + word_of_int k], description = [], estimated_duration = 30,
       priority = 3, order = k, dependencies = [], selected = True \<rparr>"

definition blogResult :: TaskCrusherResponse where
  "blogResult =
     \<lparr> main_task = lit ''Launch a blog'',
       suggested_subtasks = map suggestionAt [0, 1, 2, 3, 4],
       total_estimated_duration = 150, completion_strategy = [], ai_confidence = 1 \<rparr>"

definition reviewState :: state where
  "reviewState = initialState\<lparr>crusherResponse := Some blogResult, showAnalysisModal := True\<rparr>"

definition deselectedState :: state where
  "deselectedState =
     reviewState\<lparr>crusherResponse :=
       Some (blogResult\<lparr>suggested_subtasks :=
               map (\<lambda>s. s\<lparr>selected := False\<rparr>) (suggested_subtasks blogResult)\<rparr>)\<rparr>"

text \<open>The same with the suggestion at index 2 deselected, as in the scenario.\<close>

definition pickedResult :: TaskCrusherResponse where
  "pickedResult =
     blogResult\<lparr>suggested_subtasks :=
       [suggestionAt 0, suggestionAt 1, (suggestionAt 2)\<lparr>selected := False\<rparr>,
        suggestionAt 3, suggestionAt 4]\<rparr>"

definition pickedState :: state where
  "pickedState = reviewState\<lparr>crusherResponse := Some pickedResult\<rparr>"

definition quietEnv :: env where
  "quietEnv = \<lparr> fault = None, now = 0, groupDescription = [], groupCategory = lit ''personal'' \<rparr>"



text \<open>A backend whose third write fails, and the store after the scenario's materialization.\<close>

definition faultyEnv :: env where
  "faultyEnv = quietEnv\<lparr>fault := Some 2\<rparr>"

definition blogStore :: store where
  "blogStore = snd (createTaskGroup (createGroupRoute quietEnv) pickedState emptyStore)"

section \<open>Properties of the handlers\<close>

lemma dropWhile_empty_iff: "dropWhile P xs = [] \<longleftrightarrow> (\<forall>x\<in>set xs. P x)"
  by (induction xs) auto

lemma all_dropWhile_iff: "(\<forall>x\<in>set (dropWhile P xs). P x) \<longleftrightarrow> (\<forall>x\<in>set xs. P x)"
  by (induction xs) auto

lemma trim_empty_iff: "trim s = [] \<longleftrightarrow> (\<forall>c\<in>set s. isWhiteSpace c)"
  by (simp add: trim_def dropWhile_empty_iff all_dropWhile_iff)

subsection \<open>Validation of the task text\<close>

text \<open>
  C7. When the task text is empty or consists of white space only, \<open>analyzeTask\<close> stops
  with the "Missing Information" alert, which is how the screen reports the validation
  error: the component state and the world behind the network are as before, and no
  request is among its effects, whatever the network would have answered.
\<close>

theorem analyzeTask_blank_rejected:
  assumes "\<forall>c\<in>set (mainTask st). isWhiteSpace c"
  shows "analyzeTask net st w = ((st, [Alert MissingInformation]), w)
         \<and> requests (snd (fst (analyzeTask net st w))) = []"
  using assms by (simp add: analyzeTask_def trim_empty_iff requests_def)

theorem analyzeTask_blank_rejected_witness:
  "analyzeTask (\<lambda>b n. (Rejected, Suc n)) (initialState\<lparr>mainTask := [0x20, 0x9, 0xA0]\<rparr>) (0::nat)
     = ((initialState\<lparr>mainTask := [0x20, 0x9, 0xA0]\<rparr>, [Alert MissingInformation]), 0)
   \<and> requests (snd (fst (analyzeTask (\<lambda>b n. (Rejected, Suc n))
        (initialState\<lparr>mainTask := [0x20, 0x9, 0xA0]\<rparr>) (0::nat)))) = []"
  using analyzeTask_blank_rejected
    [of "initialState\<lparr>mainTask := [0x20, 0x9, 0xA0]\<rparr>" "\<lambda>b n. (Rejected, Suc n)" "0::nat"]
  by (simp add: isWhiteSpace_def requests_def)

subsection \<open>Selection on arrival\<close>

text \<open>
  C8. When the analysis succeeds (the task text is not blank, the response is \<^verbatim>\<open>ok\<close>
  and carries a result), the result kept by the screen has as many suggestions as the
  service sent and every one of them is selected, whatever \<open>selected\<close> value the service
  sent.
\<close>

theorem analyzeTask_selects_all:
  assumes "trim (mainTask st) \<noteq> []"
    and "net (analyzeBody st) w = (Response True (Some data), w')"
  shows "\<exists>r. crusherResponse (fst (fst (analyzeTask net st w))) = Some r
           \<and> length (suggested_subtasks r) = length (suggested_subtasks data)
           \<and> (\<forall>s\<in>set (suggested_subtasks r). selected s)"
  using assms by (simp add: analyzeTask_def Let_def)

theorem analyzeTask_selects_all_witness:
  "\<exists>r. crusherResponse (fst (fst (analyzeTask
            (\<lambda>b n. (Response True (Some (blogResult\<lparr>suggested_subtasks :=
                       [(suggestionAt 0)\<lparr>selected := False\<rparr>, suggestionAt 1]\<rparr>)), Suc n))
            (initialState\<lparr>mainTask := [0x42]\<rparr>) (0::nat)))) = Some r
      \<and> length (suggested_subtasks r) = Suc (Suc 0)
      \<and> list_all selected (suggested_subtasks r)"
  using analyzeTask_selects_all
    [of "initialState\<lparr>mainTask := [0x42]\<rparr>"
        "\<lambda>b n. (Response True (Some (blogResult\<lparr>suggested_subtasks :=
                       [(suggestionAt 0)\<lparr>selected := False\<rparr>, suggestionAt 1]\<rparr>)), Suc n)"
        "0::nat"
        "blogResult\<lparr>suggested_subtasks := [(suggestionAt 0)\<lparr>selected := False\<rparr>, suggestionAt 1]\<rparr>"
        "Suc 0"]
  by (simp add: trim_def isWhiteSpace_def initialState_def list_all_iff)

subsection \<open>Empty selection\<close>

text \<open>
  C4. With a result on the screen in which no suggestion is selected,
  \<open>createTaskGroup\<close> stops with the "No Tasks Selected" alert, which is how the screen
  reports the empty selection: no request is made, and the component state and the world
  behind the network (the persisted records) are as before.
\<close>

theorem createTaskGroup_empty_selection:
  assumes "crusherResponse st = Some r"
    and "\<forall>s\<in>set (suggested_subtasks r). \<not> selected s"
  shows "createTaskGroup net st w = ((st, [Alert NoTasksSelected]), w)
         \<and> requests (snd (fst (createTaskGroup net st w))) = []"
proof -
  have "filter selected (suggested_subtasks r) = []"
    using assms(2) by (simp add: filter_empty_conv)
  then show ?thesis
    using assms(1) by (simp add: createTaskGroup_def requests_def)
qed

theorem createTaskGroup_empty_selection_witness:
  "createTaskGroup (createGroupRoute quietEnv) deselectedState emptyStore
     = ((deselectedState, [Alert NoTasksSelected]), emptyStore)
   \<and> requests (snd (fst (createTaskGroup (createGroupRoute quietEnv) deselectedState emptyStore))) = []"
proof -
  have h1: "crusherResponse deselectedState =
      Some (blogResult\<lparr>suggested_subtasks :=
              map (\<lambda>s. s\<lparr>selected := False\<rparr>) (suggested_subtasks blogResult)\<rparr>)"
    by (simp add: deselectedState_def)
  have h2: "\<forall>s\<in>set (suggested_subtasks (blogResult\<lparr>suggested_subtasks :=
              map (\<lambda>s. s\<lparr>selected := False\<rparr>) (suggested_subtasks blogResult)\<rparr>)). \<not> selected s"
    by simp
  show ?thesis
    by (rule createTaskGroup_empty_selection [OF h1 h2])
qed

subsection \<open>No result on the screen\<close>

text \<open>
  C10. With no result on the screen (\<open>crusherResponse\<close> is null), \<open>toggleSubtaskSelection\<close>,
  at every index, and \<open>createTaskGroup\<close> return at once: no effect, so no request, and
  the same component state and world.
\<close>

theorem null_guard:
  assumes "crusherResponse st = None"
  shows "toggleSubtaskSelection index st w = ((st, []), w)
         \<and> createTaskGroup net st w = ((st, []), w)"
  using assms by (simp add: toggleSubtaskSelection_def createTaskGroup_def)

theorem null_guard_witness:
  "toggleSubtaskSelection 3 initialState (0::nat) = ((initialState, []), 0)
   \<and> createTaskGroup (\<lambda>b n. (Rejected, Suc n)) initialState (0::nat) = ((initialState, []), 0)"
  using null_guard [of initialState 3 "0::nat" "\<lambda>b n. (Rejected, Suc n)"]
  by (simp add: initialState_def)

subsection \<open>Toggling\<close>

lemma toggle_in_range:
  assumes "crusherResponse st = Some r" and "i < length (suggested_subtasks r)"
  shows "toggleSubtaskSelection (int i) st w =
           ((st\<lparr>crusherResponse := Some (r\<lparr>suggested_subtasks := flipAt i (suggested_subtasks r)\<rparr>)\<rparr>, []), w)"
  using assms by (simp add: toggleSubtaskSelection_def flipAt_def flipSelected_def Let_def)

text \<open>Outside the array the handler throws and nothing changes.\<close>

lemma toggle_out_of_range:
  assumes "crusherResponse st = Some r"
    and "index < 0 \<or> int (length (suggested_subtasks r)) \<le> index"
  shows "toggleSubtaskSelection index st w = ((st, [Uncaught]), w)"
  using assms by (auto simp: toggleSubtaskSelection_def)

lemma toggles_fold:
  assumes "crusherResponse st = Some r" and "\<forall>i\<in>set is. i < length (suggested_subtasks r)"
  shows "toggles (map int is) st =
           st\<lparr>crusherResponse := Some (r\<lparr>suggested_subtasks := fold flipAt is (suggested_subtasks r)\<rparr>)\<rparr>"
  using assms
proof (induction "is" arbitrary: st r)
  case Nil
  then show ?case by (simp add: toggles_def)
next
  case (Cons i "is")
  let ?r = "r\<lparr>suggested_subtasks := flipAt i (suggested_subtasks r)\<rparr>"
  let ?st = "st\<lparr>crusherResponse := Some ?r\<rparr>"
  have i: "i < length (suggested_subtasks r)" using Cons.prems by simp
  have step: "toggles (map int (i # is)) st = toggles (map int is) ?st"
    using toggle_in_range [OF Cons.prems(1) i, of "()"] by (simp add: toggles_def)
  have "toggles (map int is) ?st =
          ?st\<lparr>crusherResponse := Some (?r\<lparr>suggested_subtasks := fold flipAt is (suggested_subtasks ?r)\<rparr>)\<rparr>"
    using Cons.prems by (intro Cons.IH) (simp_all add: flipAt_def)
  with step show ?case by simp
qed

lemma fold_flipAt_Suc: "fold flipAt (map Suc is) (x # xs) = x # fold flipAt is xs"
  by (induction "is" arbitrary: xs) (simp_all add: flipAt_def)

lemma flips_reach:
  assumes "length xs = length bs"
  shows "\<exists>is. (\<forall>i\<in>set is. i < length xs) \<and>
           fold flipAt is xs = map2 (\<lambda>s b. s\<lparr>selected := b\<rparr>) xs bs"
  using assms
proof (induction xs bs rule: list_induct2)
  case Nil
  show ?case by (rule exI [of _ "[]"]) simp
next
  case (Cons x xs b bs)
  then obtain "is" where is1: "\<forall>i\<in>set is. i < length xs"
    and is2: "fold flipAt is xs = map2 (\<lambda>s b. s\<lparr>selected := b\<rparr>) xs bs"
    by blast
  let ?js = "(if selected x = b then [] else [0]) @ map Suc is"
  have "\<forall>i\<in>set ?js. i < length (x # xs)" using is1 by auto
  moreover have "fold flipAt ?js (x # xs) = map2 (\<lambda>s b. s\<lparr>selected := b\<rparr>) (x # xs) (b # bs)"
  proof (cases "selected x = b")
    case True
    then have "x\<lparr>selected := b\<rparr> = x" by auto
    with True show ?thesis by (simp add: fold_flipAt_Suc is2)
  next
    case False
    then have "flipSelected x = x\<lparr>selected := b\<rparr>" by (auto simp: flipSelected_def)
    with False show ?thesis by (simp add: fold_flipAt_Suc is2 flipAt_def)
  qed
  ultimately show ?case by blast
qed

text \<open>
  C9. With a result on the screen and an index of one of its suggestions,
  \<open>toggleSubtaskSelection\<close> performs no effect and leaves the world alone; in the
  component state it replaces the result by one that differs in the list of suggestions
  only, of the same length, where the suggestion at the index has its \<open>selected\<close> flag
  negated and is otherwise the same, and every other suggestion is the same. Every
  assignment \<open>bs\<close> of flags to the suggestions, all-off among them, is reached by a run
  of toggles.
\<close>

theorem toggle_flips_one:
  assumes "crusherResponse st = Some r"
    and "0 \<le> index" and "index < int (length (suggested_subtasks r))"
  shows "(\<exists>r'. toggleSubtaskSelection index st w = ((st\<lparr>crusherResponse := Some r'\<rparr>, []), w)
           \<and> r' = r\<lparr>suggested_subtasks := suggested_subtasks r'\<rparr>
           \<and> length (suggested_subtasks r') = length (suggested_subtasks r)
           \<and> selected (suggested_subtasks r' ! nat index) = (\<not> selected (suggested_subtasks r ! nat index))
           \<and> (suggested_subtasks r' ! nat index)\<lparr>selected := selected (suggested_subtasks r ! nat index)\<rparr>
               = suggested_subtasks r ! nat index
           \<and> (\<forall>j. j < length (suggested_subtasks r) \<and> j \<noteq> nat index \<longrightarrow>
                 suggested_subtasks r' ! j = suggested_subtasks r ! j))
         \<and> (\<forall>bs. length bs = length (suggested_subtasks r) \<longrightarrow>
              (\<exists>is. toggles is st =
                 st\<lparr>crusherResponse :=
                      Some (r\<lparr>suggested_subtasks :=
                              map2 (\<lambda>s b. s\<lparr>selected := b\<rparr>) (suggested_subtasks r) bs\<rparr>)\<rparr>))"
proof (intro conjI allI impI)
  have i: "nat index < length (suggested_subtasks r)" using assms by simp
  show "\<exists>r'. toggleSubtaskSelection index st w = ((st\<lparr>crusherResponse := Some r'\<rparr>, []), w)
           \<and> r' = r\<lparr>suggested_subtasks := suggested_subtasks r'\<rparr>
           \<and> length (suggested_subtasks r') = length (suggested_subtasks r)
           \<and> selected (suggested_subtasks r' ! nat index) = (\<not> selected (suggested_subtasks r ! nat index))
           \<and> (suggested_subtasks r' ! nat index)\<lparr>selected := selected (suggested_subtasks r ! nat index)\<rparr>
               = suggested_subtasks r ! nat index
           \<and> (\<forall>j. j < length (suggested_subtasks r) \<and> j \<noteq> nat index \<longrightarrow>
                 suggested_subtasks r' ! j = suggested_subtasks r ! j)"
    using toggle_in_range [OF assms(1) i, of w] assms(2) i
    by (intro exI [of _ "r\<lparr>suggested_subtasks := flipAt (nat index) (suggested_subtasks r)\<rparr>"])
       (simp add: flipAt_def flipSelected_def)
next
  fix bs :: "bool list"
  assume "length bs = length (suggested_subtasks r)"
  then obtain "is" where "\<forall>i\<in>set is. i < length (suggested_subtasks r)"
    and "fold flipAt is (suggested_subtasks r) = map2 (\<lambda>s b. s\<lparr>selected := b\<rparr>) (suggested_subtasks r) bs"
    using flips_reach [of "suggested_subtasks r" bs] by auto
  then show "\<exists>is. toggles is st =
            st\<lparr>crusherResponse :=
                 Some (r\<lparr>suggested_subtasks := map2 (\<lambda>s b. s\<lparr>selected := b\<rparr>) (suggested_subtasks r) bs\<rparr>)\<rparr>"
    using toggles_fold [OF assms(1), of "is"] by (intro exI [of _ "map int is"]) simp
qed

theorem toggle_flips_one_witness:
  "toggleSubtaskSelection 2 reviewState emptyStore =
     ((reviewState\<lparr>crusherResponse :=
         Some (blogResult\<lparr>suggested_subtasks :=
                 [suggestionAt 0, suggestionAt 1, (suggestionAt 2)\<lparr>selected := False\<rparr>,
                  suggestionAt 3, suggestionAt 4]\<rparr>)\<rparr>, []), emptyStore)
   \<and> (\<exists>is. toggles is reviewState = deselectedState)"
proof -
  have h1: "crusherResponse reviewState = Some blogResult"
    by (simp add: reviewState_def)
  have h2: "(0::int) \<le> 2" by simp
  have h3: "2 < int (length (suggested_subtasks blogResult))"
    by (simp add: blogResult_def)
  note t = toggle_flips_one [OF h1 h2 h3, of emptyStore]
  have len: "length [False, False, False, False, False] = length (suggested_subtasks blogResult)"
    by (simp add: blogResult_def)
  from t [THEN conjunct2, rule_format, OF len]
  have "\<exists>is. toggles is reviewState =
      reviewState\<lparr>crusherResponse :=
        Some (blogResult\<lparr>suggested_subtasks :=
                map2 (\<lambda>s b. s\<lparr>selected := b\<rparr>) (suggested_subtasks blogResult)
                  [False, False, False, False, False]\<rparr>)\<rparr>" .
  then have "\<exists>is. toggles is reviewState = deselectedState"
    by (simp add: deselectedState_def blogResult_def)
  moreover have "toggleSubtaskSelection 2 reviewState emptyStore =
     ((reviewState\<lparr>crusherResponse :=
         Some (blogResult\<lparr>suggested_subtasks :=
                 [suggestionAt 0, suggestionAt 1, (suggestionAt 2)\<lparr>selected := False\<rparr>,
                  suggestionAt 3, suggestionAt 4]\<rparr>)\<rparr>, []), emptyStore)"
    by (simp add: toggleSubtaskSelection_def reviewState_def blogResult_def suggestionAt_def)
  ultimately show ?thesis by simp
qed

section \<open>Properties of the backend\<close>

subsection \<open>The atomic insert\<close>

lemma writeAll_Some:
  "writeAll f k es db = Some db' \<Longrightarrow>
     db' = db\<lparr>groups := groups db @ groupsIn es, subtasks := subtasks db @ subtasksIn es\<rparr>"
proof (induction es arbitrary: k db)
  case Nil
  then show ?case by (simp add: groupsIn_def subtasksIn_def)
next
  case (Cons e es)
  then have "writeAll f (Suc k) es (insertEntry e db) = Some db'"
    by (simp split: if_splits)
  from Cons.IH [OF this] show ?case
    by (cases e) (simp_all add: groupsIn_def subtasksIn_def)
qed

lemma writeAll_fails_iff:
  "writeAll f k es db = None \<longleftrightarrow> (\<exists>j. f = Some j \<and> k \<le> j \<and> j < k + length es)"
proof (induction es arbitrary: k db)
  case Nil
  then show ?case by simp
next
  case (Cons e es)
  show ?case
  proof (cases "f = Some k")
    case True
    then show ?thesis by simp
  next
    case False
    then have "writeAll f k (e # es) db = None \<longleftrightarrow>
        (\<exists>j. f = Some j \<and> Suc k \<le> j \<and> j < Suc k + length es)"
      by (simp add: Cons.IH)
    also have "\<dots> \<longleftrightarrow> (\<exists>j. f = Some j \<and> k \<le> j \<and> j < k + length (e # es))"
      using False by (auto simp: le_less Suc_le_eq)
    finally show ?thesis .
  qed
qed

lemma atomicInsert_cases:
  "atomicInsert f es db =
     (if (\<exists>j. f = Some j \<and> j < length es) then Inl PersistenceError
      else Inr (db\<lparr>groups := groups db @ groupsIn es, subtasks := subtasks db @ subtasksIn es\<rparr>))"
proof (cases "writeAll f 0 es db")
  case None
  then show ?thesis
    using writeAll_fails_iff [of f 0 es db] by (simp add: atomicInsert_def)
next
  case (Some db')
  then have "\<not> (\<exists>j. f = Some j \<and> j < length es)"
    using writeAll_fails_iff [of f 0 es db] by simp
  with Some writeAll_Some [OF Some] show ?thesis
    by (simp add: atomicInsert_def)
qed

subsection \<open>Materialization\<close>

lemma groupsIn_batch: "groupsIn (GroupEntry g # map SubtaskEntry ss) = [g]"
  by (induction ss) (simp_all add: groupsIn_def)

lemma subtasksIn_batch: "subtasksIn (GroupEntry g # map SubtaskEntry ss) = ss"
  by (induction ss) (simp_all add: subtasksIn_def)

lemma length_newSubtasks: "length (newSubtasks gid chosen) = length chosen"
  by (simp add: newSubtasks_def Let_def)

lemma materializeGroup_cases:
  "materializeGroup e r db =
     (let chosen = filter selected (suggested_subtasks r); n = length chosen in
      if n = 0 then (Inl EmptySelectionError, db)
      else if faultWithin (fault e) n then (Inl PersistenceError, db)
      else (Inr \<lparr> group_id = nextId db, subtasks_created = int n \<rparr>,
            \<lparr> groups = groups db @ [newGroup e r (nextId db) n],
              subtasks = subtasks db @ newSubtasks (nextId db) chosen,
              nextId = nextId db + 1 + n \<rparr>))"
proof -
  have h: "(\<exists>j. fault e = Some j \<and> j < Suc n) \<longleftrightarrow> faultWithin (fault e) n" for n
    by (auto simp: faultWithin_def less_Suc_eq_le split: option.splits)
  show ?thesis
    by (simp add: materializeGroup_def Let_def atomicInsert_cases groupsIn_batch subtasksIn_batch
          h length_newSubtasks)
qed

subsection \<open>The records of a batch\<close>

lemma map2_newSubtask_ids:
  "length xs = length ys \<Longrightarrow> map subtask_id (map2 (newSubtask gid names) xs ys) = xs"
  by (induction xs ys rule: list_induct2) (simp_all add: newSubtask_def)

lemma map2_newSubtask_fields:
  "length xs = length ys \<Longrightarrow>
     map (\<lambda>s. (subtask_title s, subtask_description s, subtask_estimated_duration s,
               subtask_priority s, subtask_order s)) (map2 (newSubtask gid names) xs ys)
       = map (\<lambda>s. (title s, description s, estimated_duration s, priority s, order s)) ys"
  by (induction xs ys rule: list_induct2) (simp_all add: newSubtask_def)

lemma newSubtasks_ids:
  "map subtask_id (newSubtasks gid chosen) = map (\<lambda>k. gid + 1 + k) [0..<length chosen]"
  unfolding newSubtasks_def Let_def by (rule map2_newSubtask_ids) simp

lemma newSubtasks_fields:
  "map (\<lambda>s. (subtask_title s, subtask_description s, subtask_estimated_duration s,
             subtask_priority s, subtask_order s)) (newSubtasks gid chosen)
     = map (\<lambda>s. (title s, description s, estimated_duration s, priority s, order s)) chosen"
  unfolding newSubtasks_def Let_def by (rule map2_newSubtask_fields) simp


lemma newSubtasks_fresh:
  assumes "s \<in> set (newSubtasks gid chosen)"
  shows "groupId s = gid" and "\<not> completed s" and "completedAt s = None"
    and "gid < subtask_id s" and "subtask_id s < gid + 1 + length chosen"
proof -
  show "groupId s = gid" and "\<not> completed s" and "completedAt s = None"
    using assms by (auto simp: newSubtasks_def Let_def newSubtask_def)
  have "subtask_id s \<in> set (map subtask_id (newSubtasks gid chosen))"
    using assms by simp
  then show "gid < subtask_id s" and "subtask_id s < gid + 1 + length chosen"
    unfolding newSubtasks_ids by auto
qed

subsection \<open>The invariant of the store\<close>

lemma storeOk_emptyStore: "storeOk emptyStore"
  by (simp add: storeOk_def emptyStore_def)

lemma storeOk_insert:
  assumes ok: "storeOk db" and ne: "chosen \<noteq> []"
  shows "storeOk \<lparr> groups = groups db @ [newGroup e r (nextId db) (length chosen)],
                   subtasks = subtasks db @ newSubtasks (nextId db) chosen,
                   nextId = nextId db + 1 + length chosen \<rparr>"
    (is "storeOk ?db'")
proof -
  let ?gid = "nextId db"
  let ?g = "newGroup e r ?gid (length chosen)"
  let ?ns = "newSubtasks ?gid chosen"
  from ok have dg: "distinct (map id' (groups db))"
    and ds: "distinct (map subtask_id (subtasks db))"
    and bg: "\<forall>g\<in>set (groups db). id' g < ?gid"
    and bsg: "\<forall>s\<in>set (subtasks db). groupId s < ?gid"
    and bs: "\<forall>s\<in>set (subtasks db). subtask_id s < ?gid"
    and cnt: "\<forall>g\<in>set (groups db). 0 < total_subtasks g
                 \<and> total_subtasks g = int (length (subtasksOf (id' g) db))
                 \<and> completed_subtasks g = int (length (filter completed (subtasksOf (id' g) db)))
                 \<and> progress_percentage g = progress (completed_subtasks g) (total_subtasks g)"
    unfolding storeOk_def list_all_iff by blast+
  note fresh = newSubtasks_fresh [of _ ?gid chosen]
  have idg: "id' ?g = ?gid" by (simp add: newGroup_def)
  have 1: "distinct (map id' (groups ?db'))"
    using dg bg idg by auto
  have "distinct (map subtask_id ?ns)"
    unfolding newSubtasks_ids by (simp add: distinct_map inj_on_def)
  moreover have "set (map subtask_id (subtasks db)) \<inter> set (map subtask_id ?ns) = {}"
    using bs fresh(4) by fastforce
  ultimately have 2: "distinct (map subtask_id (subtasks ?db'))"
    using ds by simp
  have 3: "\<forall>g\<in>set (groups ?db'). id' g < nextId ?db'"
    using bg idg by auto
  have 4: "\<forall>s\<in>set (subtasks ?db'). groupId s < nextId ?db'"
    using bsg fresh(1) by fastforce
  have 5: "\<forall>s\<in>set (subtasks ?db'). subtask_id s < nextId ?db'"
    using bs fresh(5) by fastforce
  have old_sub: "subtasksOf (id' g) ?db' = subtasksOf (id' g) db" if "g \<in> set (groups db)" for g
  proof -
    have "id' g \<noteq> ?gid" using bg that by auto
    then have "filter (\<lambda>s. groupId s = id' g) ?ns = []"
      using fresh(1) by (auto simp: filter_empty_conv)
    then show ?thesis by (simp add: subtasksOf_def)
  qed
  have new_sub: "subtasksOf ?gid ?db' = ?ns"
  proof -
    have "filter (\<lambda>s. groupId s = ?gid) (subtasks db) = []"
      using bsg by (auto simp: filter_empty_conv)
    moreover have "filter (\<lambda>s. groupId s = ?gid) ?ns = ?ns"
      using fresh(1) by (simp add: filter_id_conv)
    ultimately show ?thesis by (simp add: subtasksOf_def)
  qed
  have none_done: "filter completed ?ns = []"
    using fresh(2) by (auto simp: filter_empty_conv)
  have new_cnt: "0 < total_subtasks ?g
      \<and> total_subtasks ?g = int (length (subtasksOf (id' ?g) ?db'))
      \<and> completed_subtasks ?g = int (length (filter completed (subtasksOf (id' ?g) ?db')))
      \<and> progress_percentage ?g = progress (completed_subtasks ?g) (total_subtasks ?g)"
    unfolding idg new_sub none_done using ne
    by (simp add: newGroup_def length_newSubtasks)
  have 6: "\<forall>g\<in>set (groups ?db'). 0 < total_subtasks g
                 \<and> total_subtasks g = int (length (subtasksOf (id' g) ?db'))
                 \<and> completed_subtasks g = int (length (filter completed (subtasksOf (id' g) ?db')))
                 \<and> progress_percentage g = progress (completed_subtasks g) (total_subtasks g)"
  proof
    fix g assume "g \<in> set (groups ?db')"
    then consider "g \<in> set (groups db)" | "g = ?g" by auto
    then show "0 < total_subtasks g
                 \<and> total_subtasks g = int (length (subtasksOf (id' g) ?db'))
                 \<and> completed_subtasks g = int (length (filter completed (subtasksOf (id' g) ?db')))
                 \<and> progress_percentage g = progress (completed_subtasks g) (total_subtasks g)"
    proof cases
      case 1
      show ?thesis
        unfolding old_sub [OF 1] using cnt 1 by blast
    next
      case 2
      show ?thesis
        unfolding 2 by (rule new_cnt)
    qed
  qed
  from 1 2 3 4 5 6 show ?thesis
    unfolding storeOk_def list_all_iff by blast
qed

lemma storeOk_materializeGroup:
  assumes "storeOk db"
  shows "storeOk (snd (materializeGroup e r db))"
proof (cases "filter selected (suggested_subtasks r) = []")
  case True
  with assms show ?thesis by (simp add: materializeGroup_cases)
next
  case False
  from storeOk_insert [OF assms False, of e r] assms False show ?thesis
    by (simp add: materializeGroup_cases Let_def)
qed

lemma count_after_mark:
  assumes "distinct (map f xs)" and "x \<in> set xs" and "\<not> P x" and "P x'"
  shows "length (filter P (map (\<lambda>y. if f y = f x then x' else y) xs)) = Suc (length (filter P xs))"
  using assms(1,2)
proof (induction xs)
  case Nil
  then show ?case by simp
next
  case (Cons y ys)
  show ?case
  proof (cases "f y = f x")
    case True
    have rest: "\<forall>z\<in>set ys. f z \<noteq> f x"
      using Cons.prems(1) True by (metis distinct.simps(2) image_eqI list.simps(9) set_map)
    with Cons.prems(2) have "x = y" by auto
    moreover from rest have "map (\<lambda>y. if f y = f x then x' else y) ys = ys"
      by (simp add: map_idI)
    ultimately show ?thesis
      using assms(3,4) by simp
  next
    case False
    with Cons.prems have "x \<in> set ys" and "distinct (map f ys)" by auto
    with Cons.IH False show ?thesis by simp
  qed
qed

lemma find_SomeD: "find P xs = Some x \<Longrightarrow> x \<in> set xs \<and> P x"
  by (auto simp: find_Some_iff)

lemma same_key_same_record:
  "distinct (map f xs) \<Longrightarrow> x \<in> set xs \<Longrightarrow> y \<in> set xs \<Longrightarrow> f x = f y \<Longrightarrow> x = y"
  by (meson distinct_map inj_onD)

lemma storeOk_mark:
  assumes ok: "storeOk db"
    and fs: "find (\<lambda>s. subtask_id s = sid) (subtasks db) = Some s"
    and fg: "find (\<lambda>g. id' g = groupId s) (groups db) = Some g"
    and nc: "\<not> completed s"
    and g': "g' = g\<lparr>completed_subtasks := completed_subtasks g + 1,
                    progress_percentage := progress (completed_subtasks g + 1) (total_subtasks g),
                    is_active := act\<rparr>"
    and s': "s' = s\<lparr>completed := True, completedAt := Some t\<rparr>"
  shows "storeOk (db\<lparr>groups := map (\<lambda>x. if id' x = id' g then g' else x) (groups db),
                     subtasks := map (\<lambda>x. if subtask_id x = sid then s' else x) (subtasks db)\<rparr>)"
    (is "storeOk ?db'")
proof -
  let ?fg = "\<lambda>x. if id' x = id' g then g' else x"
  let ?fs = "\<lambda>x. if subtask_id x = sid then s' else x"
  from ok have dg: "distinct (map id' (groups db))"
    and ds: "distinct (map subtask_id (subtasks db))"
    and bg: "\<forall>g\<in>set (groups db). id' g < nextId db"
    and bsg: "\<forall>s\<in>set (subtasks db). groupId s < nextId db"
    and bs: "\<forall>s\<in>set (subtasks db). subtask_id s < nextId db"
    and cnt: "\<forall>g\<in>set (groups db). 0 < total_subtasks g
                 \<and> total_subtasks g = int (length (subtasksOf (id' g) db))
                 \<and> completed_subtasks g = int (length (filter completed (subtasksOf (id' g) db)))
                 \<and> progress_percentage g = progress (completed_subtasks g) (total_subtasks g)"
    unfolding storeOk_def list_all_iff by blast+
  from find_SomeD [OF fs] have s_in: "s \<in> set (subtasks db)" and s_id: "subtask_id s = sid"
    by simp_all
  from find_SomeD [OF fg] have g_in: "g \<in> set (groups db)" and g_id: "id' g = groupId s"
    by simp_all
  have id_fg: "id' (?fg x) = id' x" for x by (simp add: g')
  have id_fs: "subtask_id (?fs x) = subtask_id x" for x by (simp add: s' s_id)
  have gid_fs: "groupId (?fs x) = groupId x" if "x \<in> set (subtasks db)" for x
  proof (cases "subtask_id x = sid")
    case True
    then have "x = s"
      using same_key_same_record [OF ds that s_in] s_id by simp
    then show ?thesis by (simp add: s')
  next
    case False
    then show ?thesis by simp
  qed
  have sub: "subtasksOf k ?db' = map ?fs (subtasksOf k db)" for k
  proof -
    have "filter ((\<lambda>s. groupId s = k) \<circ> ?fs) (subtasks db) = filter (\<lambda>s. groupId s = k) (subtasks db)"
      by (rule filter_cong) (simp_all add: gid_fs)
    then show ?thesis
      by (simp add: subtasksOf_def filter_map)
  qed
  have "map id' (groups ?db') = map id' (groups db)"
    by (simp add: id_fg)
  with dg have 1: "distinct (map id' (groups ?db'))"
    by (simp only:)
  have "map subtask_id (subtasks ?db') = map subtask_id (subtasks db)"
    by (simp add: id_fs)
  with ds have 2: "distinct (map subtask_id (subtasks ?db'))"
    by (simp only:)
  have 3: "\<forall>x\<in>set (groups ?db'). id' x < nextId ?db'"
    using bg g_in by (auto simp: g')
  have 4: "\<forall>x\<in>set (subtasks ?db'). groupId x < nextId ?db'"
    using bsg s_in by (auto simp: s')
  have 5: "\<forall>x\<in>set (subtasks ?db'). subtask_id x < nextId ?db'"
    using bs s_in by (auto simp: s' s_id)
  have marked: "0 < total_subtasks g'
      \<and> total_subtasks g' = int (length (subtasksOf (id' g') ?db'))
      \<and> completed_subtasks g' = int (length (filter completed (subtasksOf (id' g') ?db')))
      \<and> progress_percentage g' = progress (completed_subtasks g') (total_subtasks g')"
  proof -
    let ?xs = "subtasksOf (id' g) db"
    from cnt g_in have cg: "0 < total_subtasks g"
      "total_subtasks g = int (length ?xs)"
      "completed_subtasks g = int (length (filter completed ?xs))"
      by blast+
    have "distinct (map subtask_id ?xs)"
      using ds by (simp add: subtasksOf_def distinct_map_filter)
    moreover have "s \<in> set ?xs"
      using s_in g_id by (simp add: subtasksOf_def)
    moreover have "completed s'" by (simp add: s')
    ultimately have "length (filter completed (map (\<lambda>y. if subtask_id y = subtask_id s then s' else y) ?xs))
        = Suc (length (filter completed ?xs))"
      using nc by (intro count_after_mark)
    then have "length (filter completed (map ?fs ?xs)) = Suc (length (filter completed ?xs))"
      by (simp only: s_id)
    moreover have "id' g' = id' g" by (simp add: g')
    ultimately show ?thesis
      using cg by (simp add: sub g')
  qed
  have others: "0 < total_subtasks x
      \<and> total_subtasks x = int (length (subtasksOf (id' x) ?db'))
      \<and> completed_subtasks x = int (length (filter completed (subtasksOf (id' x) ?db')))
      \<and> progress_percentage x = progress (completed_subtasks x) (total_subtasks x)"
    if x_in: "x \<in> set (groups db)" and x_id: "id' x \<noteq> id' g" for x
  proof -
    have "\<forall>y\<in>set (subtasksOf (id' x) db). subtask_id y \<noteq> sid"
    proof
      fix y assume y: "y \<in> set (subtasksOf (id' x) db)"
      show "subtask_id y \<noteq> sid"
      proof
        assume "subtask_id y = sid"
        moreover from y have "y \<in> set (subtasks db)" and "groupId y = id' x"
          by (simp_all add: subtasksOf_def)
        ultimately have "y = s"
          using same_key_same_record [OF ds _ s_in] s_id by simp
        with \<open>groupId y = id' x\<close> g_id x_id show False by simp
      qed
    qed
    then have "map ?fs (subtasksOf (id' x) db) = subtasksOf (id' x) db"
      by (simp add: map_idI)
    then have same: "subtasksOf (id' x) ?db' = subtasksOf (id' x) db"
      by (simp only: sub)
    show ?thesis
      unfolding same using cnt x_in by blast
  qed
  have 6: "\<forall>x\<in>set (groups ?db'). 0 < total_subtasks x
      \<and> total_subtasks x = int (length (subtasksOf (id' x) ?db'))
      \<and> completed_subtasks x = int (length (filter completed (subtasksOf (id' x) ?db')))
      \<and> progress_percentage x = progress (completed_subtasks x) (total_subtasks x)"
  proof
    fix x assume "x \<in> set (groups ?db')"
    then obtain y where y: "y \<in> set (groups db)" and x: "x = ?fg y" by auto
    show "0 < total_subtasks x
      \<and> total_subtasks x = int (length (subtasksOf (id' x) ?db'))
      \<and> completed_subtasks x = int (length (filter completed (subtasksOf (id' x) ?db')))
      \<and> progress_percentage x = progress (completed_subtasks x) (total_subtasks x)"
    proof (cases "id' y = id' g")
      case True
      then have xg: "x = g'" using x by simp
      show ?thesis unfolding xg by (rule marked)
    next
      case False
      then have xy: "x = y" using x by simp
      show ?thesis unfolding xy by (rule others [OF y False])
    qed
  qed
  from 1 2 3 4 5 6 show ?thesis
    unfolding storeOk_def list_all_iff by blast
qed

lemma storeOk_completeSubtask:
  assumes "storeOk db"
  shows "storeOk (snd (completeSubtask t sid db))"
proof (cases "find (\<lambda>s. subtask_id s = sid) (subtasks db)")
  case None
  with assms show ?thesis by (simp add: completeSubtask_def)
next
  case (Some s)
  note fs = this
  show ?thesis
  proof (cases "find (\<lambda>g. id' g = groupId s) (groups db)")
    case None
    with assms fs show ?thesis by (simp add: completeSubtask_def)
  next
    case (Some g)
    show ?thesis
    proof (cases "completed s")
      case True
      with assms fs Some show ?thesis by (simp add: completeSubtask_def)
    next
      case False
      from storeOk_mark [OF assms fs Some False refl refl] fs Some False
      show ?thesis by (simp add: completeSubtask_def Let_def)
    qed
  qed
qed

lemma reachable_storeOk: "reachable db \<Longrightarrow> storeOk db"
  by (induction rule: reachable.induct)
     (simp_all add: storeOk_emptyStore storeOk_materializeGroup storeOk_completeSubtask)

lemma storeOk_completeAll: "storeOk db \<Longrightarrow> storeOk (completeAll calls db)"
  unfolding completeAll_def
  by (induction calls arbitrary: db) (simp_all add: storeOk_completeSubtask)

subsection \<open>Materialization from the screen\<close>

text \<open>
  The screen's \<open>createTaskGroup\<close> run against the route: with a result on the screen and
  a selection that is not empty, one request goes out, and the store either stays as it
  is (a write of the batch failed) or gains the group and the subtasks of the batch.
\<close>

lemma createTaskGroup_route:
  assumes "crusherResponse st = Some r" and "filter selected (suggested_subtasks r) \<noteq> []"
  shows "createTaskGroup (createGroupRoute e) st db =
     (let chosen = filter selected (suggested_subtasks r);
          n = length chosen;
          body = r\<lparr>suggested_subtasks := chosen\<rparr>
      in if faultWithin (fault e) n
         then ((st, [Fetch (PostCreateGroup body), Alert CreateGroupFailed]), db)
         else ((st, [Fetch (PostCreateGroup body), Alert (TasksCreated (int n)), Haptic]),
               \<lparr> groups = groups db @ [newGroup e body (nextId db) n],
                 subtasks = subtasks db @ newSubtasks (nextId db) chosen,
                 nextId = nextId db + 1 + n \<rparr>))"
  using assms
  by (simp add: createTaskGroup_def createGroupRoute_def materializeGroup_cases Let_def)


text \<open>
  C1. Materialization is all-or-nothing. With a result on the screen of which \<open>n \<ge> 1\<close>
  suggestions are selected, \<open>createTaskGroup\<close> against the route leaves the store
  exactly as it was when one of the writes of the batch fails (wherever in the batch),
  and otherwise adds exactly one group, whose \<open>total_subtasks\<close> is \<open>n\<close>, and exactly
  \<open>n\<close> subtasks, all of that group.
\<close>

theorem materialization_all_or_nothing:
  assumes "crusherResponse st = Some r" and "filter selected (suggested_subtasks r) \<noteq> []"
  shows "let n = length (filter selected (suggested_subtasks r));
             db' = snd (createTaskGroup (createGroupRoute e) st db)
         in if faultWithin (fault e) n then db' = db
            else (\<exists>g ss. groups db' = groups db @ [g] \<and> subtasks db' = subtasks db @ ss
                    \<and> total_subtasks g = int n \<and> length ss = n
                    \<and> list_all (\<lambda>s. groupId s = id' g) ss)"
proof -
  let ?chosen = "filter selected (suggested_subtasks r)"
  have "list_all (\<lambda>s. groupId s = nextId db) (newSubtasks (nextId db) ?chosen)"
    using newSubtasks_fresh(1) [of _ "nextId db" ?chosen] by (simp add: list_all_iff)
  then show ?thesis
    unfolding createTaskGroup_route [OF assms] Let_def
    by (simp add: length_newSubtasks newGroup_def)
qed

theorem materialization_all_or_nothing_witness:
  "snd (createTaskGroup (createGroupRoute faultyEnv) pickedState emptyStore) = emptyStore"
proof -
  have h1: "crusherResponse pickedState = Some pickedResult"
    by (simp add: pickedState_def)
  have h2: "filter selected (suggested_subtasks pickedResult) \<noteq> []"
    by (simp add: pickedResult_def suggestionAt_def)
  have "faultWithin (fault faultyEnv) (length (filter selected (suggested_subtasks pickedResult)))"
    by (simp add: faultWithin_def faultyEnv_def pickedResult_def suggestionAt_def)
  with materialization_all_or_nothing [OF h1 h2, of faultyEnv emptyStore]
  show ?thesis by (simp add: Let_def)
qed

text \<open>
  C3. With a result on the screen, a selection that is not empty and no failing write,
  \<open>createTaskGroup\<close> sends one request, whose suggestions are those of the result with
  \<open>selected = true\<close>; the store gains one group with \<open>total_subtasks\<close> the number of
  selected suggestions and \<open>completed_subtasks = 0\<close>, and one subtask for each selected
  suggestion, with that suggestion's title, description, estimated duration, priority and
  order.
\<close>

theorem materialization_postcondition:
  assumes "crusherResponse st = Some r" and "filter selected (suggested_subtasks r) \<noteq> []"
    and "\<not> faultWithin (fault e) (length (filter selected (suggested_subtasks r)))"
  shows "\<exists>g ss.
      requests (snd (fst (createTaskGroup (createGroupRoute e) st db)))
        = [PostCreateGroup (r\<lparr>suggested_subtasks := filter selected (suggested_subtasks r)\<rparr>)]
    \<and> groups (snd (createTaskGroup (createGroupRoute e) st db)) = groups db @ [g]
    \<and> subtasks (snd (createTaskGroup (createGroupRoute e) st db)) = subtasks db @ ss
    \<and> total_subtasks g = int (length (filter selected (suggested_subtasks r)))
    \<and> completed_subtasks g = 0
    \<and> map (\<lambda>s. (subtask_title s, subtask_description s, subtask_estimated_duration s,
                 subtask_priority s, subtask_order s)) ss
        = map (\<lambda>s. (title s, description s, estimated_duration s, priority s, order s))
            (filter selected (suggested_subtasks r))"
  unfolding createTaskGroup_route [OF assms(1,2)] Let_def
  using assms(3) by (simp add: requests_def newSubtasks_fields newGroup_def)


text \<open>The scenario: four of five suggestions selected, no failing write.\<close>

lemma picked_facts:
  "crusherResponse pickedState = Some pickedResult"
  "filter selected (suggested_subtasks pickedResult)
     = [suggestionAt 0, suggestionAt 1, suggestionAt 3, suggestionAt 4]"
  "\<not> faultWithin (fault quietEnv) n"
  by (simp_all add: pickedState_def pickedResult_def suggestionAt_def faultWithin_def quietEnv_def)

theorem materialization_postcondition_witness:
  "\<exists>g ss. groups blogStore = [g] \<and> subtasks blogStore = ss
     \<and> total_subtasks g = 4 \<and> completed_subtasks g = 0
     \<and> map subtask_order ss = [0, 1, 3, 4]
     \<and> map subtask_priority ss = [3, 3, 3, 3]"
proof -
  have h2: "filter selected (suggested_subtasks pickedResult) \<noteq> []"
    by (simp add: picked_facts)
  have h3: "\<not> faultWithin (fault quietEnv) (length (filter selected (suggested_subtasks pickedResult)))"
    by (simp add: picked_facts)
  from materialization_postcondition [OF picked_facts(1) h2 h3, of emptyStore]
  obtain g ss where "groups blogStore = groups emptyStore @ [g]"
    and "subtasks blogStore = subtasks emptyStore @ ss"
    and "total_subtasks g = int (length (filter selected (suggested_subtasks pickedResult)))"
    and "completed_subtasks g = 0"
    and f: "map (\<lambda>s. (subtask_title s, subtask_description s, subtask_estimated_duration s,
                 subtask_priority s, subtask_order s)) ss
        = map (\<lambda>s. (title s, description s, estimated_duration s, priority s, order s))
            (filter selected (suggested_subtasks pickedResult))"
    unfolding blogStore_def by blast
  moreover from f have "map subtask_order ss = [0, 1, 3, 4] \<and> map subtask_priority ss = [3, 3, 3, 3]"
    by (auto simp: picked_facts suggestionAt_def)
  ultimately show ?thesis
    by (simp add: picked_facts emptyStore_def)
qed



subsection \<open>Progress\<close>

text \<open>
  C2. In a store built by materializations and completions, after any further run of
  \<open>completeSubtask\<close> calls (any identifiers, existing or not, repeated or not), every
  group has \<open>progress_percentage = 100 * completed_subtasks / total_subtasks\<close> and
  \<open>0 \<le> completed_subtasks \<le> total_subtasks\<close>, with \<open>total_subtasks\<close> positive. As the
  run is arbitrary, this holds after each call of it.
\<close>

theorem progress_invariant:
  assumes "reachable db" and "g \<in> set (groups (completeAll calls db))"
  shows "progress_percentage g
           = 100 * real_of_int (completed_subtasks g) / real_of_int (total_subtasks g)
         \<and> 0 \<le> completed_subtasks g
         \<and> completed_subtasks g \<le> total_subtasks g
         \<and> 0 < total_subtasks g"
proof -
  let ?db = "completeAll calls db"
  have "storeOk ?db"
    using assms(1) by (intro storeOk_completeAll reachable_storeOk)
  with assms(2) have "0 < total_subtasks g"
    and t: "total_subtasks g = int (length (subtasksOf (id' g) ?db))"
    and c: "completed_subtasks g = int (length (filter completed (subtasksOf (id' g) ?db)))"
    and p: "progress_percentage g = progress (completed_subtasks g) (total_subtasks g)"
    unfolding storeOk_def list_all_iff by blast+
  moreover have "completed_subtasks g \<le> total_subtasks g"
    unfolding t c by simp
  moreover have "0 \<le> completed_subtasks g"
    unfolding c by simp
  ultimately show ?thesis
    by (simp add: progress_def)
qed

text \<open>The scenario: completing two of the four subtasks gives 50 percent.\<close>

lemma blogStore_eq:
  "blogStore =
     \<lparr> groups = [newGroup quietEnv pickedResult 0 4],
       subtasks = newSubtasks 0 [suggestionAt 0, suggestionAt 1, suggestionAt 3, suggestionAt 4],
       nextId = 5 \<rparr>"
proof -
  have ne: "filter selected (suggested_subtasks pickedResult) \<noteq> []"
    by (simp add: picked_facts)
  show ?thesis
    unfolding blogStore_def createTaskGroup_route [OF picked_facts(1) ne] Let_def
    by (simp add: picked_facts emptyStore_def newGroup_def)
qed

lemma createTaskGroup_reachable:
  assumes "reachable db"
  shows "reachable (snd (createTaskGroup (createGroupRoute e) st db))"
proof (cases "crusherResponse st")
  case None
  with assms show ?thesis by (simp add: createTaskGroup_def)
next
  case (Some r)
  show ?thesis
  proof (cases "filter selected (suggested_subtasks r) = []")
    case True
    with assms Some show ?thesis by (simp add: createTaskGroup_def)
  next
    case False
    let ?body = "r\<lparr>suggested_subtasks := filter selected (suggested_subtasks r)\<rparr>"
    have "snd (createTaskGroup (createGroupRoute e) st db) = snd (materializeGroup e ?body db)"
      using Some False
      by (simp add: createTaskGroup_def createGroupRoute_def Let_def
            split: prod.splits sum.splits)
    then show ?thesis
      using assms by (simp add: reachable.materialize)
  qed
qed

lemma blogStore_after:
  "completeAll [(10, 1), (11, 3)] blogStore =
     blogStore\<lparr>groups := [(newGroup quietEnv pickedResult 0 4)
                 \<lparr>completed_subtasks := 2, progress_percentage := 50, is_active := True\<rparr>],
               subtasks := map (\<lambda>s. if subtask_id s = 1 then s\<lparr>completed := True, completedAt := Some 10\<rparr>
                                 else if subtask_id s = 3 then s\<lparr>completed := True, completedAt := Some 11\<rparr>
                                 else s) (subtasks blogStore)\<rparr>"
  by (simp add: blogStore_eq completeAll_def completeSubtask_def newSubtasks_def newSubtask_def
        newGroup_def progress_def Let_def upt_rec [of _ "Suc _"])

theorem progress_invariant_witness:
  "\<exists>g. reachable blogStore
      \<and> groups (completeAll [(10, 1), (11, 3)] blogStore) = [g]
      \<and> completed_subtasks g = 2 \<and> total_subtasks g = 4
      \<and> progress_percentage g
           = 100 * real_of_int (completed_subtasks g) / real_of_int (total_subtasks g)
      \<and> progress_percentage g = 50"
proof -
  let ?g = "(newGroup quietEnv pickedResult 0 4)
              \<lparr>completed_subtasks := 2, progress_percentage := 50, is_active := True\<rparr>"
  have r: "reachable blogStore"
    unfolding blogStore_def by (rule createTaskGroup_reachable [OF reachable.start])
  have g: "?g \<in> set (groups (completeAll [(10, 1), (11, 3)] blogStore))"
    unfolding blogStore_after by simp
  from progress_invariant [OF r g] r
  show ?thesis
    unfolding blogStore_after by (intro exI [of _ ?g]) (simp add: newGroup_def)
qed

subsection \<open>Idempotent completion\<close>

lemma find_map_mark:
  assumes "find (\<lambda>x. f x = k) xs = Some x" and "f x' = k"
  shows "find (\<lambda>x. f x = k) (map (\<lambda>y. if f y = k then x' else y) xs) = Some x'"
  using assms by (induction xs) (auto split: if_splits)

text \<open>
  C5. A second \<open>completeSubtask\<close> call for the same identifier gives the answer of the
  first call (the group with its \<open>completed_subtasks\<close>, or the error) and leaves the store
  as the first call left it.
\<close>

theorem completeSubtask_idempotent:
  "completeSubtask t2 sid (snd (completeSubtask t1 sid db)) = completeSubtask t1 sid db"
proof (cases "find (\<lambda>s. subtask_id s = sid) (subtasks db)")
  case None
  then show ?thesis by (simp add: completeSubtask_def)
next
  case (Some s)
  note fs = this
  show ?thesis
  proof (cases "find (\<lambda>g. id' g = groupId s) (groups db)")
    case None
    with fs show ?thesis by (simp add: completeSubtask_def)
  next
    case (Some g)
    note fg = this
    show ?thesis
    proof (cases "completed s")
      case True
      with fs fg show ?thesis by (simp add: completeSubtask_def)
    next
      case False
      let ?g' = "g\<lparr>completed_subtasks := completed_subtasks g + 1,
                    progress_percentage := progress (completed_subtasks g + 1) (total_subtasks g),
                    is_active := (completed_subtasks g + 1 < total_subtasks g)\<rparr>"
      let ?s' = "s\<lparr>completed := True, completedAt := Some t1\<rparr>"
      let ?db' = "db\<lparr>groups := map (\<lambda>x. if id' x = id' g then ?g' else x) (groups db),
                       subtasks := map (\<lambda>x. if subtask_id x = sid then ?s' else x) (subtasks db)\<rparr>"
      have first: "completeSubtask t1 sid db = (Inr ?g', ?db')"
        using fs fg False by (simp add: completeSubtask_def Let_def)
      have s_id: "subtask_id s = sid" and g_id: "id' g = groupId s"
        using find_SomeD [OF fs] find_SomeD [OF fg] by simp_all
      have "find (\<lambda>x. subtask_id x = sid) (subtasks ?db') = Some ?s'"
        using find_map_mark [OF fs, of ?s'] s_id by simp
      moreover have "find (\<lambda>x. id' x = groupId ?s') (groups ?db') = Some ?g'"
        using find_map_mark [of id' "groupId s" "groups db" g ?g'] fg g_id by simp
      ultimately have "completeSubtask t2 sid ?db' = (Inr ?g', ?db')"
        by (simp add: completeSubtask_def)
      with first show ?thesis by simp
    qed
  qed
qed

theorem completeSubtask_idempotent_witness:
  "completeSubtask 11 1 (snd (completeSubtask 10 1 blogStore)) = completeSubtask 10 1 blogStore
   \<and> map completed_subtasks (groups (snd (completeSubtask 10 1 blogStore))) = [1]"
proof -
  have "map completed_subtasks (groups (snd (completeSubtask 10 1 blogStore))) = [1]"
    by (simp add: blogStore_eq completeSubtask_def newSubtasks_def newSubtask_def
        newGroup_def Let_def upt_rec [of _ "Suc _"])
  with completeSubtask_idempotent [of 11 1 10 blogStore] show ?thesis by simp
qed

end
